theory Spec2Isabelle
  imports Main "HOL-Library.Sublist" "HOL-Library.AList" "HOL-Library.Multiset"
begin

section \<open>Strings\<close>

text \<open>
  Python strings are modelled as \<open>string\<close>; a \<open>char\<close> stands for a code point below 256.
  The characters that \<open>str.isspace\<close>, \<open>str.strip\<close> and the regular expression class
  \<^verbatim>\<open>\s\<close> treat as whitespace in that range are tab, line feed, vertical tab, form feed,
  carriage return, the four separators 0x1C..0x1F, space, 0x85 and 0xA0.
\<close>

definition newline :: char where
  "newline = CHR 0x0A"

definition whitespace :: "char list" where
  "whitespace = [CHR 0x09, CHR 0x0A, CHR 0x0B, CHR 0x0C, CHR 0x0D,
                 CHR 0x1C, CHR 0x1D, CHR 0x1E, CHR 0x1F, CHR 0x20, CHR 0x85, CHR 0xA0]"

definition quotes :: "char list" where
  "quotes = [CHR 0x27, CHR 0x22]"

definition isspace :: "char \<Rightarrow> bool" where
  "isspace c \<longleftrightarrow> c \<in> set whitespace"

text \<open>\<^verbatim>\<open>s.strip()\<close>: leading and trailing whitespace removed.\<close>

definition strip :: "string \<Rightarrow> string" where
  "strip s = rev (dropWhile isspace (rev (dropWhile isspace s)))"

text \<open>\<^verbatim>\<open>s.split(sep)\<close> for a one-character separator: the pieces between the separators.\<close>

fun split_on :: "char \<Rightarrow> string \<Rightarrow> string list" where
  "split_on sep [] = [[]]"
| "split_on sep (c # cs) =
     (if c = sep then [] # split_on sep cs
      else (case split_on sep cs of [] \<Rightarrow> [[c]] | p # ps \<Rightarrow> (c # p) # ps))"

text \<open>
  \<^verbatim>\<open>s.split(sep, 1)\<close>: the string cut at the first occurrence of \<open>sep\<close>, or the string alone
  when \<open>sep\<close> does not occur.
\<close>

fun partition_at :: "string \<Rightarrow> string \<Rightarrow> (string \<times> string) option" where
  "partition_at sep [] = (if sep = [] then Some ([], []) else None)"
| "partition_at sep (c # cs) =
     (if prefix sep (c # cs) then Some ([], drop (length sep) (c # cs))
      else map_option (\<lambda>(a, b). (c # a, b)) (partition_at sep cs))"

definition split1 :: "string \<Rightarrow> string \<Rightarrow> string list" where
  "split1 sep s = (case partition_at sep s of None \<Rightarrow> [s] | Some (a, b) \<Rightarrow> [a, b])"

section \<open>Errors\<close>

text \<open>
  The exceptions the two scripts raise or catch: \<open>IndexError\<close> from indexing a list,
  \<open>ValueError\<close> with its message from \<open>extract_url\<close>, the \<open>Exception\<close> that \<open>fetch_file\<close>
  raises for a status other than 200 (with the URL and the status code of its message), and
  an exception raised by \<open>requests.get\<close> itself.
\<close>

datatype error =
    IndexError
  | ValueError string
  | StatusError string nat
  | RequestError

text \<open>\<^verbatim>\<open>xs[i]\<close> for a non-negative index.\<close>

definition index :: "'a list \<Rightarrow> nat \<Rightarrow> error + 'a" where
  "index xs i = (if i < length xs then Inr (xs ! i) else Inl IndexError)"

section \<open>Regular expressions\<close>

text \<open>
  The fragment of Python's \<open>re\<close> syntax that the patterns of the program use, with the
  backtracking semantics of the library: \<open>rmatch\<close> returns every way a pattern can match at
  the current position, in the order in which the backtracking matcher tries them (greedy
  operators try the longer match first); the match the library reports is the first one.

  A matcher state is the part of the subject before the current position (reversed), the
  part from the current position on, and the text of capture group 1 when it has been closed.
  \<open>Bol\<close> and \<open>Eol\<close> are \<^verbatim>\<open>^\<close> and \<^verbatim>\<open>$\<close> under \<open>re.MULTILINE\<close>; \<open>Dot\<close> is \<^verbatim>\<open>.\<close> without
  \<open>re.DOTALL\<close>; \<open>NotAhead\<close> is \<^verbatim>\<open>(?!...)\<close>; \<open>Group\<close> is a capturing group, a
  non-capturing group \<^verbatim>\<open>(?:...)\<close> being plain nesting.
\<close>

datatype regex =
    Eps
  | Lit char
  | Dot
  | Set "char list"
  | NSet "char list"
  | Cat regex regex
  | Opt regex
  | Star regex
  | Bol
  | Eol
  | NotAhead regex
  | Group regex

type_synonym mstate = "string \<times> string \<times> string option"

definition remaining :: "mstate \<Rightarrow> nat" where
  "remaining s = length (fst (snd s))"

fun step_if :: "(char \<Rightarrow> bool) \<Rightarrow> mstate \<Rightarrow> mstate list" where
  "step_if P (l, [], g) = []"
| "step_if P (l, x # xs, g) = (if P x then [(x # l, xs, g)] else [])"

text \<open>
  In \<open>Star\<close> an iteration that consumes nothing is not repeated, as in the library; the
  starred expressions of the program's patterns all consume one character.
\<close>

function rmatch :: "regex \<Rightarrow> mstate \<Rightarrow> mstate list" where
  "rmatch Eps s = [s]"
| "rmatch (Lit c) s = step_if (\<lambda>x. x = c) s"
| "rmatch Dot s = step_if (\<lambda>x. x \<noteq> newline) s"
| "rmatch (Set cs) s = step_if (\<lambda>x. x \<in> set cs) s"
| "rmatch (NSet cs) s = step_if (\<lambda>x. x \<notin> set cs) s"
| "rmatch (Cat a b) s = concat (map (rmatch b) (rmatch a s))"
| "rmatch (Opt a) s = rmatch a s @ [s]"
| "rmatch (Star a) s =
     concat (map (rmatch (Star a))
               (filter (\<lambda>s'. remaining s' < remaining s) (rmatch a s))) @ [s]"
| "rmatch Bol (l, r, g) = (if l = [] \<or> hd l = newline then [(l, r, g)] else [])"
| "rmatch Eol (l, r, g) = (if r = [] \<or> hd r = newline then [(l, r, g)] else [])"
| "rmatch (NotAhead a) s = (if rmatch a s = [] then [s] else [])"
| "rmatch (Group a) (l, r, g) =
     map (\<lambda>(l', r', g'). (l', r', Some (rev (take (length l' - length l) l'))))
         (rmatch a (l, r, g))"
  by pat_completeness auto
termination
  by (relation "measures [\<lambda>(re, s). size re, \<lambda>(re, s). remaining s]")
     (auto simp: remaining_def)

text \<open>\<^verbatim>\<open>r+\<close> is \<^verbatim>\<open>rr*\<close>; a sequence of expressions; a literal string.\<close>

definition Plus :: "regex \<Rightarrow> regex" where
  "Plus a = Cat a (Star a)"

fun seq :: "regex list \<Rightarrow> regex" where
  "seq [] = Eps"
| "seq (a # as) = Cat a (seq as)"

definition lit_str :: "string \<Rightarrow> regex" where
  "lit_str s = seq (map Lit s)"

text \<open>The first match at a position: \<open>l\<close> is the subject before it (reversed), \<open>r\<close> the rest.\<close>

definition match_at :: "regex \<Rightarrow> string \<Rightarrow> string \<Rightarrow> mstate option" where
  "match_at re l r = (case rmatch re (l, r, None) of [] \<Rightarrow> None | s # _ \<Rightarrow> Some s)"

text \<open>The text of group 1 of a match (the empty string when the group took no part).\<close>

definition group1 :: "string option \<Rightarrow> string" where
  "group1 g = (case g of None \<Rightarrow> [] | Some c \<Rightarrow> c)"

text \<open>\<^verbatim>\<open>re.search(pattern, s)\<close>: the first match at the leftmost position that has one.\<close>

fun search_from :: "regex \<Rightarrow> string \<Rightarrow> string \<Rightarrow> mstate option" where
  "search_from re l [] = match_at re l []"
| "search_from re l (x # xs) =
     (case match_at re l (x # xs) of
        Some s \<Rightarrow> Some s
      | None \<Rightarrow> search_from re (x # l) xs)"

definition re_search :: "regex \<Rightarrow> string \<Rightarrow> mstate option" where
  "re_search re s = search_from re [] s"

text \<open>
  \<^verbatim>\<open>re.findall(pattern, s)\<close> for a pattern with one group: the group's text for every match,
  the matches found from left to right, each search starting where the previous match
  ended. After an empty match the scan moves on by one character; no pattern of the program
  has an empty match.
\<close>

function findall_from :: "regex \<Rightarrow> string \<Rightarrow> string \<Rightarrow> string list" where
  "findall_from re l r =
     (case match_at re l r of
        Some (l', r', g) \<Rightarrow>
          (if length r' < length r then group1 g # findall_from re l' r'
           else group1 g # (case r of [] \<Rightarrow> [] | x # xs \<Rightarrow> findall_from re (x # l) xs))
      | None \<Rightarrow> (case r of [] \<Rightarrow> [] | x # xs \<Rightarrow> findall_from re (x # l) xs))"
  by pat_completeness auto
termination
  by (relation "measure (\<lambda>(re, l, r). length r)") auto

definition findall :: "regex \<Rightarrow> string \<Rightarrow> string list" where
  "findall re s = findall_from re [] s"

section \<open>fetch\_video\_assets.py: parsing the request description\<close>

text \<open>
  \<^verbatim>\<open>header_pattern = r'-H\s*[\'"]?([^\'"]+)[\'"]?'\<close>
\<close>

definition header_pattern :: regex where
  "header_pattern =
     seq [lit_str ''-H'', Star (Set whitespace), Opt (Set quotes),
          Group (Plus (NSet quotes)), Opt (Set quotes)]"

text \<open>
  The dictionary comprehension of \<open>extract_headers\<close>: for each header text in turn the key
  \<^verbatim>\<open>header.split(": ", 1)[0]\<close> and the value \<^verbatim>\<open>header.split(": ", 1)[1]\<close>, the latter raising
  \<open>IndexError\<close> when the text has no \<^verbatim>\<open>": "\<close>. A dictionary is an association list with
  distinct keys in insertion order; storing under a key already present replaces its value.
\<close>

type_synonym headers = "(string \<times> string) list"

fun header_dict :: "string list \<Rightarrow> headers \<Rightarrow> error + headers" where
  "header_dict [] d = Inr d"
| "header_dict (header # rest) d =
     (case index (split1 '': '' header) 0 of
        Inl e \<Rightarrow> Inl e
      | Inr k \<Rightarrow>
          (case index (split1 '': '' header) 1 of
             Inl e \<Rightarrow> Inl e
           | Inr v \<Rightarrow> header_dict rest (AList.update k v d)))"

definition extract_headers :: "string \<Rightarrow> error + headers" where
  "extract_headers curl_command =
     (let headers = findall header_pattern curl_command
      in header_dict headers [])"

text \<open>
  \<^verbatim>\<open>url_pattern = r'curl\s+[\'"]?(https?://[^\s\'"]+)[\'"]?'\<close>
\<close>

definition url_pattern :: regex where
  "url_pattern =
     seq [lit_str ''curl'', Plus (Set whitespace), Opt (Set quotes),
          Group (seq [lit_str ''http'', Opt (Lit CHR ''s''), lit_str ''://'',
                      Plus (NSet (whitespace @ quotes))]),
          Opt (Set quotes)]"

definition no_m3u8_msg :: string where
  "no_m3u8_msg = ''The URL does not point to an .m3u8 file.''"

definition no_url_msg :: string where
  "no_url_msg = ''No URL found in the cURL command.''"

definition extract_url :: "string \<Rightarrow> error + string" where
  "extract_url curl_command =
     (case re_search url_pattern curl_command of
        Some (l, r, g) \<Rightarrow>
          (let url = group1 g
           in if \<not> suffix ''.m3u8'' (hd (split_on CHR ''?'' url))
              then Inl (ValueError no_m3u8_msg)
              else Inr url)
      | None \<Rightarrow> Inl (ValueError no_url_msg))"

section \<open>fetch\_video\_assets.py: references of a manifest\<close>

text \<open>
  \<^verbatim>\<open>pattern = fr'^(?!#)(.*\{file_extension}(?:\?.*)?)$'\<close>, matched with \<open>re.MULTILINE\<close>.
  The program calls \<open>find_references\<close> with the extensions \<^verbatim>\<open>.m3u8\<close> and \<^verbatim>\<open>.ts\<close> only; the
  backslash of the pattern escapes their dot, so the extension is matched literally.
\<close>

definition ref_pattern :: "string \<Rightarrow> regex" where
  "ref_pattern file_extension =
     seq [Bol, NotAhead (Lit CHR ''#''),
          Group (seq [Star Dot, lit_str file_extension,
                      Opt (seq [Lit CHR ''?'', Star Dot])]),
          Eol]"

text \<open>
  \<open>urllib.parse.urljoin\<close> is a library function: it is a parameter of the model, so that
  what is proved holds whatever it returns.
\<close>

definition find_references ::
  "(string \<Rightarrow> string \<Rightarrow> string) \<Rightarrow> string \<Rightarrow> string \<Rightarrow> string \<Rightarrow> string list" where
  "find_references urljoin content base_url file_extension =
     (let matches = findall (ref_pattern file_extension) content;
          urls = map (\<lambda>m. urljoin base_url (strip m)) matches
      in urls)"

section \<open>fetch\_video\_assets.py: fetching and saving\<close>

text \<open>
  What \<open>requests.get\<close> does for a URL and headers: it returns a response with a status code
  and a body, or raises. The server answers a request in the same way throughout a run.
\<close>

datatype response = Response nat string | Unreachable

text \<open>The network calls of the program: \<open>requests.get\<close>, plain or with \<open>stream=True\<close>.\<close>

datatype request = Get string headers | GetStream string headers

text \<open>
  The lines the program prints, one constructor for each \<open>print\<close> of the script:
  \<^verbatim>\<open>Saved .m3u8 file: {m3u8_save_path}\<close>, \<^verbatim>\<open>Error fetching {m3u8_url}: {str(e)}\<close>,
  \<^verbatim>\<open>Saved: {save_path}\<close>, \<^verbatim>\<open>Failed to download {url}. Status code: {status_code}\<close> and
  \<^verbatim>\<open>Error downloading {ts_url}: {str(e)}\<close>.
\<close>

datatype message =
    Saved_m3u8 string
  | Error_fetching string error
  | Saved string
  | Failed_to_download string nat
  | Error_downloading string error

text \<open>
  The world outside the program: the network calls made so far (oldest first), the files
  written with their contents (a dictionary from path to content), and the lines printed.
  Directories are implicit in the paths, and writing a file succeeds.
\<close>

record world =
  requests :: "request list"
  files :: "(string \<times> string) list"
  stdout :: "message list"

text \<open>
  The library functions and the server, as parameters: \<open>urllib.parse.urljoin\<close>, the
  \<open>path\<close> component of \<open>urllib.parse.urlparse\<close>, and \<open>requests.get\<close>.
\<close>

record lib =
  urljoin :: "string \<Rightarrow> string \<Rightarrow> string"
  url_path :: "string \<Rightarrow> string"
  http :: "string \<Rightarrow> headers \<Rightarrow> response"



text \<open>\<open>os.path.join\<close> and \<open>os.path.basename\<close> of \<open>posixpath\<close>.\<close>

definition path_join2 :: "string \<Rightarrow> string \<Rightarrow> string" where
  "path_join2 a b =
     (if prefix ''/'' b then b
      else if a = [] \<or> suffix ''/'' a then a @ b
      else a @ ''/'' @ b)"

definition path_join :: "string \<Rightarrow> string list \<Rightarrow> string" where
  "path_join a ps = foldl path_join2 a ps"

definition basename :: "string \<Rightarrow> string" where
  "basename p = rev (takeWhile (\<lambda>c. c \<noteq> CHR ''/'') (rev p))"









section \<open>upload\_to\_s3.py\<close>

text \<open>
  The path functions of \<open>posixpath\<close> that \<open>os.path.relpath\<close> uses. \<open>normpath\<close> keeps the
  components of a path that are neither empty nor \<^verbatim>\<open>.\<close>, and lets \<^verbatim>\<open>..\<close> cancel the
  component before it; \<open>initial_slashes\<close> is the number of slashes (0, 1 or 2) it keeps at
  the front.
\<close>

definition isabs :: "string \<Rightarrow> bool" where
  "isabs p = prefix ''/'' p"

definition initial_slashes :: "string \<Rightarrow> nat" where
  "initial_slashes path =
     (if \<not> prefix ''/'' path then 0
      else if prefix ''//'' path \<and> \<not> prefix ''///'' path then 2
      else 1)"

definition norm_step :: "nat \<Rightarrow> string list \<Rightarrow> string \<Rightarrow> string list" where
  "norm_step slashes new_comps c =
     (if c = [] \<or> c = ''.'' then new_comps
      else if c \<noteq> ''..'' \<or> (slashes = 0 \<and> new_comps = [])
                \<or> (new_comps \<noteq> [] \<and> last new_comps = ''..'')
           then new_comps @ [c]
      else if new_comps \<noteq> [] then butlast new_comps
      else new_comps)"

text \<open>\<^verbatim>\<open>sep.join(xs)\<close> for the separator \<^verbatim>\<open>/\<close>.\<close>

fun slash_join :: "string list \<Rightarrow> string" where
  "slash_join [] = []"
| "slash_join [x] = x"
| "slash_join (x # y # ys) = x @ ''/'' @ slash_join (y # ys)"

definition normpath :: "string \<Rightarrow> string" where
  "normpath path =
     (if path = [] then ''.''
      else (let comps = foldl (norm_step (initial_slashes path)) [] (split_on CHR ''/'' path);
                p = replicate (initial_slashes path) CHR ''/'' @ slash_join comps
            in if p = [] then ''.'' else p))"

text \<open>\<open>os.path.abspath\<close>, with the current directory \<open>cwd\<close> of the process.\<close>

definition abspath :: "string \<Rightarrow> string \<Rightarrow> string" where
  "abspath cwd path = normpath (if \<not> isabs path then path_join2 cwd path else path)"

text \<open>
  \<open>os.path.commonprefix\<close> of two lists is their longest common prefix.
\<close>

fun commonprefix :: "'a list \<Rightarrow> 'a list \<Rightarrow> 'a list" where
  "commonprefix (x # xs) (y # ys) = (if x = y then x # commonprefix xs ys else [])"
| "commonprefix _ _ = []"

definition no_path_msg :: string where
  "no_path_msg = ''no path specified''"

definition relpath :: "string \<Rightarrow> string \<Rightarrow> string \<Rightarrow> error + string" where
  "relpath cwd path start =
     (if path = [] then Inl (ValueError no_path_msg)
      else
        (let start_list = filter (\<lambda>x. x \<noteq> []) (split_on CHR ''/'' (abspath cwd start));
             path_list = filter (\<lambda>x. x \<noteq> []) (split_on CHR ''/'' (abspath cwd path));
             i = length (commonprefix start_list path_list);
             rel_list = replicate (length start_list - i) ''..'' @ drop i path_list
         in if rel_list = [] then Inr ''.''
            else Inr (path_join (hd rel_list) (tl rel_list))))"

text \<open>
  A directory as \<open>os.walk\<close> sees it: its subdirectories with their names, and the names of
  its other entries, both in the order of the directory scan.
\<close>

datatype dirtree = Dir (subdirs: "(string \<times> dirtree) list") (filenames: "string list")

text \<open>\<open>os.walk(root)\<close>, top-down: the triple of a directory, then the walks of its subdirectories.\<close>

fun walk :: "string \<Rightarrow> dirtree \<Rightarrow> (string \<times> string list \<times> string list) list" where
  "walk root (Dir ds fs) =
     (root, map fst ds, fs) # concat (map (\<lambda>d. walk (path_join2 root (fst d)) (snd d)) ds)"

text \<open>
  What the uploader finds around it: the environment variables after \<open>load_dotenv()\<close>, the
  current directory, the directory at a path (\<open>None\<close> when there is none, and \<open>os.walk\<close>
  yields nothing), whether \<open>boto3.client\<close> raises \<open>NoCredentialsError\<close>, and the exception
  text of \<open>upload_file\<close> for a call that fails.
\<close>

record platform =
  getenv :: "string \<Rightarrow> string option"
  getcwd :: string
  scandir :: "string \<Rightarrow> dirtree option"
  client_raises :: bool
  upload_error :: "string \<Rightarrow> string \<Rightarrow> string \<Rightarrow> string option"

text \<open>The calls to the storage service, and what the uploader has done: calls and printed lines.\<close>

datatype s3_call =
    Client string string
  | Upload_file string string string

record s3_world =
  calls :: "s3_call list"
  printed :: "string list"

text \<open>An argument is falsy when it is \<open>None\<close> or the empty string.\<close>

definition falsy :: "string option \<Rightarrow> bool" where
  "falsy x \<longleftrightarrow> x = None \<or> x = Some []"

text \<open>The body of the inner loop: one file of one directory of the walk.\<close>

definition upload_one ::
  "platform \<Rightarrow> string \<Rightarrow> string \<Rightarrow> string \<Rightarrow> string \<Rightarrow> (error + s3_world) \<Rightarrow> (error + s3_world)" where
  "upload_one pf source_directory bucket_name root file r =
     (case r of
        Inl e \<Rightarrow> Inl e
      | Inr w \<Rightarrow>
          (let file_path = path_join2 root file
           in case relpath (getcwd pf) file_path source_directory of
                Inl e \<Rightarrow> Inl e
              | Inr s3_key \<Rightarrow>
                  (let w' = w\<lparr>calls := calls w @ [Upload_file file_path bucket_name s3_key]\<rparr>
                   in case upload_error pf file_path bucket_name s3_key of
                        None \<Rightarrow>
                          Inr (w'\<lparr>printed := printed w' @
                                 [''Uploaded '' @ file_path @ '' to s3://'' @ bucket_name
                                    @ ''/'' @ s3_key]\<rparr>)
                      | Some e \<Rightarrow>
                          Inr (w'\<lparr>printed := printed w' @
                                 [''Failed to upload '' @ file_path @ '': '' @ e]\<rparr>))))"

definition upload_walk ::
  "platform \<Rightarrow> string \<Rightarrow> string \<Rightarrow> (string \<times> string list \<times> string list) list
     \<Rightarrow> s3_world \<Rightarrow> error + s3_world" where
  "upload_walk pf source_directory bucket_name triples w =
     fold (\<lambda>(root, dirs, files) r.
             fold (upload_one pf source_directory bucket_name root) files r)
          triples (Inr w)"

definition upload_directory_to_s3 ::
  "platform \<Rightarrow> string option \<Rightarrow> string option \<Rightarrow> string option \<Rightarrow> string option
     \<Rightarrow> s3_world \<Rightarrow> error + s3_world" where
  "upload_directory_to_s3 pf source_directory bucket_name aws_access_key_id
       aws_secret_access_key w =
     (let key_id = (if aws_access_key_id = None then getenv pf ''AWS_ACCESS_KEY_ID''
                    else aws_access_key_id);
          secret = (if aws_secret_access_key = None then getenv pf ''AWS_SECRET_ACCESS_KEY''
                    else aws_secret_access_key)
      in if falsy key_id then
           Inr (w\<lparr>printed := printed w @ [''Error: Missing AWS Access Key ID'']\<rparr>)
         else if falsy secret then
           Inr (w\<lparr>printed := printed w @ [''Error: Missing AWS Secret Access Key'']\<rparr>)
         else if falsy source_directory then
           Inr (w\<lparr>printed := printed w @ [''Error: Missing source directory'']\<rparr>)
         else if falsy bucket_name then
           Inr (w\<lparr>printed := printed w @ [''Error: Missing S3 bucket name'']\<rparr>)
         else
           (let w' = w\<lparr>calls := calls w @ [Client (the key_id) (the secret)]\<rparr>
            in if client_raises pf then
                 Inr (w'\<lparr>printed := printed w' @
                        [''Error: AWS credentials not provided or incorrect'']\<rparr>)
               else
                 upload_walk pf (the source_directory) (the bucket_name)
                   (case scandir pf (the source_directory) of
                      None \<Rightarrow> []
                    | Some t \<Rightarrow> walk (the source_directory) t)
                   w'))"

section \<open>The reference graph of the manifests\<close>





section \<open>The files of a directory tree\<close>

text \<open>
  The name of a directory entry is not empty, is neither \<^verbatim>\<open>.\<close> nor \<^verbatim>\<open>..\<close>, and holds no
  slash; in a proper tree every entry has such a name. The files of a tree are given by
  their paths from the root of the tree, each a list of names ending in the file's name, in
  the order of the walk.
\<close>

definition entry_name :: "string \<Rightarrow> bool" where
  "entry_name n \<longleftrightarrow> n \<noteq> [] \<and> n \<noteq> ''.'' \<and> n \<noteq> ''..'' \<and> CHR ''/'' \<notin> set n"




section \<open>Lines and references of a manifest body\<close>

text \<open>
  A position of the subject is at the start of a line when nothing or a line feed precedes
  it, and at the end of a line when nothing or a line feed follows it. A regular expression
  is free of line feeds when no character it consumes can be a line feed.
\<close>

definition at_line_start :: "string \<Rightarrow> bool" where
  "at_line_start l \<longleftrightarrow> l = [] \<or> hd l = newline"

definition at_line_end :: "string \<Rightarrow> bool" where
  "at_line_end r \<longleftrightarrow> r = [] \<or> hd r = newline"

fun nl_free :: "regex \<Rightarrow> bool" where
  "nl_free (Lit c) \<longleftrightarrow> c \<noteq> newline"
| "nl_free (Set cs) \<longleftrightarrow> newline \<notin> set cs"
| "nl_free (NSet cs) \<longleftrightarrow> newline \<in> set cs"
| "nl_free (Cat a b) \<longleftrightarrow> nl_free a \<and> nl_free b"
| "nl_free (Opt a) \<longleftrightarrow> nl_free a"
| "nl_free (Star a) \<longleftrightarrow> nl_free a"
| "nl_free (Group a) \<longleftrightarrow> nl_free a"
| "nl_free _ \<longleftrightarrow> True"

text \<open>
  The specification's reading of a manifest body. Its lines are the pieces between line
  feeds. A line references a file with an extension when it ends in the extension,
  optionally followed by a query string: some suffix of the line starts with the extension,
  and what follows the extension there is nothing or starts with a question mark. A line
  is a comment, in the specification's words, when its first non-whitespace character is
  the marker \<^verbatim>\<open>#\<close>.
\<close>

definition references :: "string \<Rightarrow> string \<Rightarrow> bool" where
  "references ext ln \<longleftrightarrow>
     (\<exists>t \<in> set (suffixes ln).
        prefix ext t \<and> (drop (length ext) t = [] \<or> hd (drop (length ext) t) = CHR ''?''))"

definition comment_line :: "string \<Rightarrow> bool" where
  "comment_line ln \<longleftrightarrow>
     (case dropWhile isspace ln of [] \<Rightarrow> False | c # cs \<Rightarrow> c = CHR ''#'')"

text \<open>
  The same condition on the rest of the subject at a position: the extension is there, and
  after it the line ends or a question mark follows.
\<close>

definition tail_ok :: "string \<Rightarrow> string \<Rightarrow> bool" where
  "tail_ok ext r \<longleftrightarrow>
     prefix ext r \<and> (at_line_end (drop (length ext) r)
                    \<or> (drop (length ext) r \<noteq> [] \<and> hd (drop (length ext) r) = CHR ''?''))"


section \<open>Example inputs\<close>

text \<open>
  The request description of the specification's end-to-end scenario,
  \<^verbatim>\<open>curl 'https://x.test/master.m3u8' -H 'Authorization: Bearer t'\<close>, and one whose URL contains
  the characters \<^verbatim>\<open>-H\<close>.
\<close>

definition scenario_command :: string where
  "scenario_command =
     ''curl 'https://x.test/master.m3u8' -H 'Authorization: Bearer t'' @ [CHR 0x27]"

definition hd_command :: string where
  "hd_command =
     ''curl 'https://x.test/video-HD.m3u8' -H 'Authorization: Bearer t'' @ [CHR 0x27]"


text \<open>
  Library behaviour for the examples. For a reference that is a bare file name (with or
  without a query string), \<open>urljoin\<close> replaces the last path segment of the base; for a
  reference that is only a fragment, it puts the fragment after the base. For a URL
  \<^verbatim>\<open>scheme://host/path?query\<close> the path of \<open>urlparse\<close> is the text from the first slash
  after the host up to the question mark or the fragment.
\<close>

definition simple_urljoin :: "string \<Rightarrow> string \<Rightarrow> string" where
  "simple_urljoin base ref =
     (if prefix ''#'' ref then takeWhile (\<lambda>c. c \<noteq> CHR ''#'') base @ ref
      else rev (dropWhile (\<lambda>c. c \<noteq> CHR ''/'') (rev base)) @ ref)"





text \<open>The uploader scenario: a directory \<open>src\<close> holding \<open>a.txt\<close> and \<open>sub/b.txt\<close>.\<close>

definition scenario_platform :: platform where
  "scenario_platform =
     \<lparr>getenv = (\<lambda>name. None),
      getcwd = ''/home/user'',
      scandir = (\<lambda>p. if p = ''src'' then Some (Dir [(''sub'', Dir [] [''b.txt''])] [''a.txt''])
                     else None),
      client_raises = False,
      upload_error = (\<lambda>file_path bucket key. None)\<rparr>"

definition empty_s3_world :: s3_world where
  "empty_s3_world = \<lparr>calls = [], printed = []\<rparr>"










text \<open>
  A manifest body with a tag line, a line that starts with the marker and ends in the
  manifest extension, a variant with a query string and a segment; and a body whose first
  line is an indented remark that ends in the manifest extension.
\<close>

definition tagged_body :: string where
  "tagged_body =
     ''#EXTM3U'' @ [newline] @ ''#old.m3u8'' @ [newline] @ ''variant1.m3u8?tok=1''
       @ [newline] @ ''seg0.ts''"

definition indented_body :: string where
  "indented_body = ''  # was: old.m3u8'' @ [newline] @ ''variant1.m3u8''"


section \<open>Properties of the request parsing\<close>




text \<open>
  C5 (at the input \<open>hd_command\<close>). The description holds one header declaration and one
  manifest URL ending in \<^verbatim>\<open>.m3u8\<close>, but the header pattern also matches the \<^verbatim>\<open>-H\<close> inside the
  URL and captures \<^verbatim>\<open>D.m3u8\<close>, which has no \<^verbatim>\<open>": "\<close>: \<open>extract_headers\<close> raises \<open>IndexError\<close>
  instead of returning a mapping of size one, although \<open>extract_url\<close> returns the URL.
\<close>

theorem extract_headers_url_with_dash_H:
  "findall header_pattern hd_command = [''D.m3u8'', ''Authorization: Bearer t'']
   \<and> extract_headers hd_command = Inl IndexError
   \<and> extract_url hd_command = Inr ''https://x.test/video-HD.m3u8''"
  by code_simp

lemma extract_scenario_command:
  "extract_headers scenario_command = Inr [(''Authorization'', ''Bearer t'')]
   \<and> extract_url scenario_command = Inr ''https://x.test/master.m3u8''"
  by code_simp



section \<open>Properties of the uploader\<close>

text \<open>
  C8. When the access key (given, or else taken from the environment), the secret key
  (likewise), the source directory or the bucket name is absent (\<open>None\<close> or empty),
  \<open>upload_directory_to_s3\<close> prints the message for the first of them that is missing and
  returns; it has made no call to the storage service, neither creating a client nor
  uploading.
\<close>

theorem upload_fails_fast:
  assumes "key_id = (if aws_access_key_id = None then getenv pf ''AWS_ACCESS_KEY_ID''
                     else aws_access_key_id)"
    and "secret = (if aws_secret_access_key = None then getenv pf ''AWS_SECRET_ACCESS_KEY''
                   else aws_secret_access_key)"
    and "falsy key_id \<or> falsy secret \<or> falsy source_directory \<or> falsy bucket_name"
  shows "upload_directory_to_s3 pf source_directory bucket_name aws_access_key_id
           aws_secret_access_key w
         = Inr (w\<lparr>printed := printed w @
                  [if falsy key_id then ''Error: Missing AWS Access Key ID''
                   else if falsy secret then ''Error: Missing AWS Secret Access Key''
                   else if falsy source_directory then ''Error: Missing source directory''
                   else ''Error: Missing S3 bucket name'']\<rparr>)"
  using assms unfolding upload_directory_to_s3_def Let_def by auto

theorem upload_fails_fast_witness:
  "falsy (None :: string option)
   \<and> upload_directory_to_s3 scenario_platform (Some ''src'') None (Some ''id'') (Some ''key'')
        empty_s3_world
     = Inr \<lparr>calls = [], printed = [''Error: Missing S3 bucket name'']\<rparr>"
proof -
  have f: "falsy (None :: string option)" by (simp add: falsy_def)
  have k: "\<not> falsy (Some ''id'')" "\<not> falsy (Some ''key'')" "\<not> falsy (Some ''src'')"
    by (simp_all add: falsy_def)
  from upload_fails_fast [of "Some ''id''" "Some ''id''" scenario_platform "Some ''key''"
         "Some ''key''" "Some ''src''" None empty_s3_world] f k
  show ?thesis by (simp add: empty_s3_world_def)
qed

section \<open>Properties of the two loops\<close>



























section \<open>Properties of the local file names\<close>

lemma basename_last_component:
  assumes "CHR ''/'' \<notin> set name"
  shows "basename (dir @ ''/'' @ name) = name"
proof -
  have "takeWhile (\<lambda>c. c \<noteq> CHR ''/'') (rev name @ CHR ''/'' # rev dir) = rev name"
    using assms by (subst takeWhile_append2) auto
  then show ?thesis by (simp add: basename_def)
qed





section \<open>Properties of the upload walk\<close>





lemma norm_step_name: "entry_name n \<Longrightarrow> norm_step k acc n = acc @ [n]"
  by (simp add: norm_step_def entry_name_def)

lemma norm_fold_names:
  "\<forall>n \<in> set ns. entry_name n \<Longrightarrow> foldl (norm_step k) acc ns = acc @ ns"
  by (induction ns arbitrary: acc) (simp_all add: norm_step_name)


































section \<open>Properties of the reference pattern\<close>

declare rmatch.simps(8) [simp del]

lemma rmatch_Star:
  "set (rmatch (Star a) s)
   = insert s (\<Union>s1 \<in> {s1 \<in> set (rmatch a s). remaining s1 < remaining s}.
                 set (rmatch (Star a) s1))"
  by (subst rmatch.simps(8)) auto

lemma step_if_consumes:
  assumes "s' \<in> set (step_if P s)" and "\<And>x. P x \<Longrightarrow> x \<noteq> newline"
  shows "\<exists>c. fst (snd s) = c @ fst (snd s') \<and> fst s' = rev c @ fst s \<and> newline \<notin> set c"
proof -
  obtain l r g where s: "s = (l, r, g)" by (cases s)
  show ?thesis
  proof (cases r)
    case Nil
    with assms(1) s show ?thesis by simp
  next
    case (Cons x xs)
    with assms(1) s have "P x" and "s' = (x # l, xs, g)"
      by (auto split: if_splits)
    with assms(2) Cons s have "fst (snd s) = [x] @ fst (snd s') \<and> fst s' = rev [x] @ fst s
        \<and> newline \<notin> set [x]"
      by auto
    then show ?thesis by blast
  qed
qed

lemma rmatch_consumes:
  "s' \<in> set (rmatch re s) \<Longrightarrow> nl_free re \<Longrightarrow>
   \<exists>c. fst (snd s) = c @ fst (snd s') \<and> fst s' = rev c @ fst s \<and> newline \<notin> set c"
proof (induction re s arbitrary: s' rule: rmatch.induct)
  case (1 s)
  then show ?case by simp
next
  case (2 c s)
  then show ?case using step_if_consumes [of s' "\<lambda>x. x = c" s] by simp
next
  case (3 s)
  then show ?case using step_if_consumes [of s' "\<lambda>x. x \<noteq> newline" s] by simp
next
  case (4 cs s)
  then show ?case using step_if_consumes [of s' "\<lambda>x. x \<in> set cs" s] by auto
next
  case (5 cs s)
  then show ?case using step_if_consumes [of s' "\<lambda>x. x \<notin> set cs" s] by auto
next
  case (6 a b s)
  from "6.prems" obtain s1 where s1: "s1 \<in> set (rmatch a s)" and s': "s' \<in> set (rmatch b s1)"
    by auto
  from "6.IH"(1) [OF s1] "6.prems"(2) obtain c1 where
    c1: "fst (snd s) = c1 @ fst (snd s1)" "fst s1 = rev c1 @ fst s" "newline \<notin> set c1"
    by auto
  from "6.IH"(2) [OF s1 s'] "6.prems"(2) obtain c2 where
    c2: "fst (snd s1) = c2 @ fst (snd s')" "fst s' = rev c2 @ fst s1" "newline \<notin> set c2"
    by auto
  from c1 c2 have "fst (snd s) = (c1 @ c2) @ fst (snd s') \<and> fst s' = rev (c1 @ c2) @ fst s
      \<and> newline \<notin> set (c1 @ c2)"
    by simp
  then show ?case by blast
next
  case (7 a s)
  show ?case
  proof (cases "s' = s")
    case True
    then show ?thesis by simp
  next
    case False
    with "7.prems" have "s' \<in> set (rmatch a s)" by auto
    from "7.IH" [OF this] "7.prems"(2) show ?thesis by simp
  qed
next
  case (8 a s)
  show ?case
  proof (cases "s' = s")
    case True
    then show ?thesis by simp
  next
    case False
    with "8.prems"(1) obtain s1 where s1: "s1 \<in> set (rmatch a s)"
      and prog: "remaining s1 < remaining s" and s': "s' \<in> set (rmatch (Star a) s1)"
      unfolding rmatch_Star [of a s] by auto
    from "8.IH"(1) [OF s1] "8.prems"(2) obtain c1 where
      c1: "fst (snd s) = c1 @ fst (snd s1)" "fst s1 = rev c1 @ fst s" "newline \<notin> set c1"
      by auto
    from s1 prog have "s1 \<in> set (filter (\<lambda>s'. remaining s' < remaining s) (rmatch a s))"
      by simp
    from "8.IH"(2) [OF this s'] "8.prems"(2) obtain c2 where
      c2: "fst (snd s1) = c2 @ fst (snd s')" "fst s' = rev c2 @ fst s1" "newline \<notin> set c2"
      by auto
    from c1 c2 have "fst (snd s) = (c1 @ c2) @ fst (snd s') \<and> fst s' = rev (c1 @ c2) @ fst s
      \<and> newline \<notin> set (c1 @ c2)"
      by simp
    then show ?thesis by blast
  qed
next
  case (9 l r g)
  then show ?case by (auto split: if_splits)
next
  case (10 l r g)
  then show ?case by (auto split: if_splits)
next
  case (11 a s)
  then show ?case by (auto split: if_splits)
next
  case (12 a l r g)
  from "12.prems"(1) obtain s1 where s1: "s1 \<in> set (rmatch a (l, r, g))"
    and e: "fst s' = fst s1" "fst (snd s') = fst (snd s1)"
    by (auto split: prod.splits)
  from "12.IH" [OF s1] "12.prems"(2) show ?case unfolding e by simp
qed


declare findall_from.simps [simp del]

lemma line_unique:
  assumes "newline \<notin> set c" and "at_line_end r1"
  shows "takeWhile (\<lambda>x. x \<noteq> newline) (c @ r1) = c"
    and "dropWhile (\<lambda>x. x \<noteq> newline) (c @ r1) = r1"
proof -
  have t: "takeWhile (\<lambda>x. x \<noteq> newline) r1 = []" and d: "dropWhile (\<lambda>x. x \<noteq> newline) r1 = r1"
    using assms(2) by (cases r1; simp add: at_line_end_def)+
  have "takeWhile (\<lambda>x. x \<noteq> newline) (c @ r1) = c @ takeWhile (\<lambda>x. x \<noteq> newline) r1"
    using assms(1) by (intro takeWhile_append2) auto
  with t show "takeWhile (\<lambda>x. x \<noteq> newline) (c @ r1) = c" by simp
  have "dropWhile (\<lambda>x. x \<noteq> newline) (c @ r1) = dropWhile (\<lambda>x. x \<noteq> newline) r1"
    using assms(1) by (intro dropWhile_append2) auto
  with d show "dropWhile (\<lambda>x. x \<noteq> newline) (c @ r1) = r1" by simp
qed

lemma line_end_dropWhile: "at_line_end (dropWhile (\<lambda>x. x \<noteq> newline) r)"
  using hd_dropWhile [of "\<lambda>x. x \<noteq> newline" r] by (auto simp: at_line_end_def)

lemma concat_rmatch_Eps: "concat (map (rmatch Eps) xs) = xs"
  by (induction xs) simp_all

lemma rmatch_Cat_Eps: "rmatch (Cat a Eps) s = rmatch a s"
  by (simp add: concat_rmatch_Eps)

lemma rmatch_Cat_Eps_fun: "rmatch (Cat a Eps) = rmatch a"
  by (rule ext) (rule rmatch_Cat_Eps)

lemma rmatch_lit_str:
  "rmatch (lit_str ext) (l, r, g)
   = (if prefix ext r then [(rev ext @ l, drop (length ext) r, g)] else [])"
proof (induction ext arbitrary: l r)
  case Nil
  then show ?case by (simp add: lit_str_def)
next
  case (Cons c ext)
  then have ih: "\<And>l r. rmatch (seq (map Lit ext)) (l, r, g)
      = (if prefix ext r then [(rev ext @ l, drop (length ext) r, g)] else [])"
    by (simp add: lit_str_def)
  show ?case
    by (cases r) (simp_all add: lit_str_def ih)
qed

lemma rmatch_Star_Dot_Nil: "rmatch (Star Dot) (l, [], g) = [(l, [], g)]"
  by (simp add: rmatch.simps(8))

lemma rmatch_Star_Dot_Cons:
  "rmatch (Star Dot) (l, x # xs, g)
   = (if x \<noteq> newline then rmatch (Star Dot) (x # l, xs, g) @ [(l, x # xs, g)]
      else [(l, x # xs, g)])"
  by (subst rmatch.simps(8)) (simp add: remaining_def)

lemma star_reaches_end:
  "\<exists>s \<in> set (rmatch (Star Dot) (l, r, g)). at_line_end (fst (snd s))"
proof (induction r arbitrary: l)
  case Nil
  then show ?case by (simp add: rmatch_Star_Dot_Nil at_line_end_def)
next
  case (Cons x xs)
  show ?case
  proof (cases "x = newline")
    case True
    then show ?thesis by (simp add: rmatch_Star_Dot_Cons at_line_end_def)
  next
    case False
    with Cons [of "x # l"] show ?thesis by (auto simp: rmatch_Star_Dot_Cons)
  qed
qed

lemma query_reaches_end:
  "(\<exists>s \<in> set (rmatch (Opt (seq [Lit CHR ''?'', Star Dot])) (l, r, g)). at_line_end (fst (snd s)))
   \<longleftrightarrow> at_line_end r \<or> (r \<noteq> [] \<and> hd r = CHR ''?'')"
proof (cases r)
  case Nil
  then show ?thesis by (simp add: rmatch_Cat_Eps at_line_end_def)
next
  case (Cons x xs)
  show ?thesis
  proof (cases "x = CHR ''?''")
    case True
    with Cons star_reaches_end [of "x # l" xs g] show ?thesis
      by (auto simp: rmatch_Cat_Eps)
  next
    case False
    with Cons show ?thesis by (simp add: rmatch_Cat_Eps)
  qed
qed

lemma tail_reaches_end:
  "(\<exists>s \<in> set (rmatch (seq [lit_str ext, Opt (seq [Lit CHR ''?'', Star Dot])]) (l, r, g)).
       at_line_end (fst (snd s)))
   \<longleftrightarrow> tail_ok ext r"
proof -
  let ?q = "Opt (seq [Lit CHR ''?'', Star Dot])"
  have "rmatch (seq [lit_str ext, ?q]) (l, r, g)
        = concat (map (rmatch (Cat ?q Eps)) (rmatch (lit_str ext) (l, r, g)))"
    by (simp only: seq.simps rmatch.simps(6))
  also have "\<dots> = (if prefix ext r then rmatch ?q (rev ext @ l, drop (length ext) r, g) else [])"
    by (simp only: rmatch_lit_str rmatch_Cat_Eps_fun) simp
  finally show ?thesis
    using query_reaches_end [of "rev ext @ l" "drop (length ext) r" g]
    by (simp only: tail_ok_def split: if_splits) auto
qed

lemma tail_ok_line:
  assumes ext: "newline \<notin> set ext" and ln: "newline \<notin> set ln" and rest: "at_line_end rest"
  shows "tail_ok ext (ln @ rest)
         \<longleftrightarrow> prefix ext ln \<and> (drop (length ext) ln = [] \<or> hd (drop (length ext) ln) = CHR ''?'')"
proof -
  have p: "prefix ext (ln @ rest) \<longleftrightarrow> prefix ext ln"
  proof
    assume "prefix ext (ln @ rest)"
    then consider "prefix ext ln" | us where "ext = ln @ us" "prefix us rest"
      by (auto simp: prefix_append)
    then show "prefix ext ln"
    proof cases
      case 1
      then show ?thesis .
    next
      case 2
      show ?thesis
      proof (cases us)
        case Nil
        with 2 show ?thesis by simp
      next
        case (Cons u us')
        with 2(2) obtain rest' where "rest = u # rest'" by (cases rest) auto
        with rest have "u = newline" by (simp add: at_line_end_def)
        with 2(1) Cons ext show ?thesis by simp
      qed
    qed
  next
    assume "prefix ext ln"
    then show "prefix ext (ln @ rest)" by (rule prefix_prefix)
  qed
  show ?thesis
  proof (cases "prefix ext ln")
    case False
    with p show ?thesis by (simp add: tail_ok_def)
  next
    case True
    then obtain q where q: "ln = ext @ q" by (auto simp: prefix_def)
    show ?thesis
    proof (cases q)
      case Nil
      with q p True rest show ?thesis by (simp add: tail_ok_def)
    next
      case (Cons y q')
      with q ln have "y \<noteq> newline" by auto
      with q p True Cons show ?thesis by (simp add: tail_ok_def at_line_end_def)
    qed
  qed
qed

lemma references_Nil: "ext \<noteq> [] \<Longrightarrow> \<not> references ext []"
  by (simp add: references_def)

lemma references_Cons:
  "references ext (x # ln)
   \<longleftrightarrow> references ext ln
       \<or> (prefix ext (x # ln) \<and> (drop (length ext) (x # ln) = []
                                   \<or> hd (drop (length ext) (x # ln)) = CHR ''?''))"
  by (auto simp: references_def)

lemma body_reaches_end:
  assumes ext: "ext \<noteq> []" "newline \<notin> set ext"
    and rest: "at_line_end rest"
  shows "newline \<notin> set ln \<Longrightarrow>
         (\<exists>s \<in> set (rmatch (seq [Star Dot, lit_str ext, Opt (seq [Lit CHR ''?'', Star Dot])])
                         (l, ln @ rest, g)).
             at_line_end (fst (snd s)))
         \<longleftrightarrow> references ext ln"
proof (induction ln arbitrary: l)
  case Nil
  let ?t = "seq [lit_str ext, Opt (seq [Lit CHR ''?'', Star Dot])]"
  have star: "rmatch (Star Dot) (l, rest, g) = [(l, rest, g)]"
    using rest by (cases rest) (simp_all add: rmatch_Star_Dot_Nil rmatch_Star_Dot_Cons at_line_end_def)
  have "rmatch (seq [Star Dot, lit_str ext, Opt (seq [Lit CHR ''?'', Star Dot])]) (l, rest, g)
        = concat (map (rmatch ?t) (rmatch (Star Dot) (l, rest, g)))"
    by (simp only: seq.simps rmatch.simps(6))
  then have "(\<exists>s \<in> set (rmatch (seq [Star Dot, lit_str ext, Opt (seq [Lit CHR ''?'', Star Dot])])
                         (l, rest, g)). at_line_end (fst (snd s)))
             \<longleftrightarrow> tail_ok ext rest"
    using tail_reaches_end [of ext l rest g] by (simp only: star) simp
  moreover have "tail_ok ext ([] @ rest) \<longleftrightarrow> False"
    using tail_ok_line [OF ext(2) _ rest, of "[]"] ext(1) by simp
  ultimately show ?case using references_Nil [OF ext(1)] by simp
next
  case (Cons x ln)
  let ?t = "seq [lit_str ext, Opt (seq [Lit CHR ''?'', Star Dot])]"
  let ?b = "seq [Star Dot, lit_str ext, Opt (seq [Lit CHR ''?'', Star Dot])]"
  from Cons.prems have x: "x \<noteq> newline" and ln: "newline \<notin> set ln" by auto
  have unf: "rmatch ?b s = concat (map (rmatch ?t) (rmatch (Star Dot) s))" for s
    by (simp only: seq.simps rmatch.simps(6))
  have star: "rmatch (Star Dot) (l, (x # ln) @ rest, g)
              = rmatch (Star Dot) (x # l, ln @ rest, g) @ [(l, (x # ln) @ rest, g)]"
    using x by (simp add: rmatch_Star_Dot_Cons)
  have "(\<exists>s \<in> set (rmatch ?b (l, (x # ln) @ rest, g)). at_line_end (fst (snd s)))
        \<longleftrightarrow> (\<exists>s \<in> set (rmatch ?b (x # l, ln @ rest, g)). at_line_end (fst (snd s)))
            \<or> (\<exists>s \<in> set (rmatch ?t (l, (x # ln) @ rest, g)). at_line_end (fst (snd s)))"
    unfolding unf star by auto
  also have "\<dots> \<longleftrightarrow> references ext ln \<or> tail_ok ext ((x # ln) @ rest)"
    using Cons.IH [OF ln, of "x # l"] tail_reaches_end [of ext l "(x # ln) @ rest" g]
    by simp
  also have "\<dots> \<longleftrightarrow> references ext (x # ln)"
    using tail_ok_line [OF ext(2) Cons.prems rest] by (simp add: references_Cons)
  finally show ?case .
qed

declare rmatch.simps [simp del]

lemma rmatch_Eol: "rmatch Eol s = (if at_line_end (fst (snd s)) then [s] else [])"
  by (cases s) (simp add: at_line_end_def rmatch.simps)

lemma rmatch_Group_set:
  "set (rmatch (Group a) (l, r, g))
   = (\<lambda>s1. (fst s1, fst (snd s1), Some (rev (take (length (fst s1) - length l) (fst s1)))))
       ` set (rmatch a (l, r, g))"
proof -
  have "(\<lambda>(l', r', g'). (l', r', Some (rev (take (length l' - length l) l'))))
        = (\<lambda>s1 :: mstate. (fst s1, fst (snd s1),
              Some (rev (take (length (fst s1) - length l) (fst s1)))))"
    by (auto simp: fun_eq_iff)
  then show ?thesis by (simp only: rmatch.simps(12) set_map)
qed

lemma nl_free_lit_str: "newline \<notin> set ext \<Longrightarrow> nl_free (lit_str ext)"
  by (induction ext) (auto simp: lit_str_def)

lemma rmatch_hash: "rmatch (Lit CHR ''#'') (l, r, g) = [] \<longleftrightarrow> \<not> prefix ''#'' r"
  by (cases r) (auto simp: rmatch.simps)

lemma match_at_ref_pattern:
  assumes ext: "ext \<noteq> []" "newline \<notin> set ext"
  shows "match_at (ref_pattern ext) l r
         = (if at_line_start l \<and> \<not> prefix ''#'' r
               \<and> references ext (takeWhile (\<lambda>x. x \<noteq> newline) r)
            then Some (rev (takeWhile (\<lambda>x. x \<noteq> newline) r) @ l,
                       dropWhile (\<lambda>x. x \<noteq> newline) r,
                       Some (takeWhile (\<lambda>x. x \<noteq> newline) r))
            else None)"
proof -
  let ?ln = "takeWhile (\<lambda>x. x \<noteq> newline) r"
  let ?rest = "dropWhile (\<lambda>x. x \<noteq> newline) r"
  let ?b = "seq [Star Dot, lit_str ext, Opt (seq [Lit CHR ''?'', Star Dot])]"
  let ?X = "concat (map (rmatch Eol) (rmatch (Group ?b) (l, r, None)))"
  have r: "r = ?ln @ ?rest" by simp
  have ln: "newline \<notin> set ?ln" by (auto dest: set_takeWhileD)
  have rest: "at_line_end ?rest" by (rule line_end_dropWhile)
  have free: "nl_free ?b" using ext(2) by (simp add: nl_free_lit_str newline_def)
  have R: "rmatch (ref_pattern ext) (l, r, None)
           = (if at_line_start l \<and> \<not> prefix ''#'' r then ?X else [])"
  proof -
    let ?ge = "Cat (Group ?b) (Cat Eol Eps)"
    let ?n = "Cat (NotAhead (Lit CHR ''#'')) ?ge"
    have "rmatch (ref_pattern ext) (l, r, None) = concat (map (rmatch ?n) (rmatch Bol (l, r, None)))"
      by (simp only: ref_pattern_def seq.simps rmatch.simps(6))
    also have "\<dots> = (if at_line_start l then rmatch ?n (l, r, None) else [])"
      by (simp only: rmatch.simps(9) at_line_start_def) simp
    also have "rmatch ?n (l, r, None)
               = concat (map (rmatch ?ge) (rmatch (NotAhead (Lit CHR ''#'')) (l, r, None)))"
      by (simp only: rmatch.simps(6))
    also have "\<dots> = (if \<not> prefix ''#'' r then rmatch ?ge (l, r, None) else [])"
      using rmatch_hash [of l r None] by (simp only: rmatch.simps(11)) simp
    also have "rmatch (Cat (Group ?b) (Cat Eol Eps)) (l, r, None) = ?X"
      by (simp only: rmatch.simps(6) rmatch_Cat_Eps_fun)
    finally show ?thesis by simp
  qed
  have elem: "s = (rev ?ln @ l, ?rest, Some ?ln)" if "s \<in> set ?X" for s
  proof -
    from that have s2: "s \<in> set (rmatch (Group ?b) (l, r, None))"
      and e: "at_line_end (fst (snd s))"
      by (auto simp: rmatch_Eol split: if_splits)
    from s2 obtain s1 where s1: "s1 \<in> set (rmatch ?b (l, r, None))"
      and g: "s = (fst s1, fst (snd s1), Some (rev (take (length (fst s1) - length l) (fst s1))))"
      unfolding rmatch_Group_set by blast
    from rmatch_consumes [OF s1 free] obtain c where
      c: "r = c @ fst (snd s1)" "fst s1 = rev c @ l" "newline \<notin> set c"
      by auto
    from e g have e1: "at_line_end (fst (snd s1))" by simp
    from line_unique [OF c(3) e1] c(1) have "?ln = c" "?rest = fst (snd s1)"
      by simp_all
    with g c show ?thesis by simp
  qed
  have ex: "?X \<noteq> [] \<longleftrightarrow> references ext ?ln"
  proof -
    have "?X \<noteq> [] \<longleftrightarrow> (\<exists>s2 \<in> set (rmatch (Group ?b) (l, r, None)). at_line_end (fst (snd s2)))"
      by (auto simp: rmatch_Eol)
    also have "\<dots> \<longleftrightarrow> (\<exists>s1 \<in> set (rmatch ?b (l, r, None)). at_line_end (fst (snd s1)))"
      unfolding rmatch_Group_set by simp
    also have "\<dots> \<longleftrightarrow> references ext ?ln"
      using body_reaches_end [OF ext rest ln, of l None] by simp
    finally show ?thesis .
  qed
  show ?thesis
  proof (cases "at_line_start l \<and> \<not> prefix ''#'' r \<and> references ext ?ln")
    case True
    with R ex have ne: "?X \<noteq> []"
      and X: "rmatch (ref_pattern ext) (l, r, None) = ?X" by simp_all
    from ne have "hd ?X \<in> set ?X" by (rule hd_in_set)
    then have "hd ?X = (rev ?ln @ l, ?rest, Some ?ln)" by (rule elem)
    moreover from ne have "match_at (ref_pattern ext) l r = Some (hd ?X)"
      unfolding match_at_def X by (cases ?X) simp_all
    ultimately show ?thesis using True by simp
  next
    case False
    with R ex have "rmatch (ref_pattern ext) (l, r, None) = []" by auto
    with False show ?thesis by (simp add: match_at_def)
  qed
qed

lemma findall_from_Nil:
  "match_at re l [] = None \<Longrightarrow> findall_from re l [] = []"
  by (subst findall_from.simps) simp

lemma findall_from_Cons:
  "match_at re l (x # xs) = None \<Longrightarrow> findall_from re l (x # xs) = findall_from re (x # l) xs"
  by (subst findall_from.simps) simp

lemma findall_from_match:
  "match_at re l r = Some (l', r', g) \<Longrightarrow> length r' < length r \<Longrightarrow>
   findall_from re l r = group1 g # findall_from re l' r'"
  by (subst findall_from.simps) simp

lemma split_on_line:
  "split_on newline r
   = (case dropWhile (\<lambda>x. x \<noteq> newline) r of
        [] \<Rightarrow> [takeWhile (\<lambda>x. x \<noteq> newline) r]
      | y # r' \<Rightarrow> takeWhile (\<lambda>x. x \<noteq> newline) r # split_on newline r')"
proof (induction r)
  case Nil
  then show ?case by simp
next
  case (Cons a r)
  show ?case
  proof (cases "a = newline")
    case True
    then show ?thesis by simp
  next
    case False
    show ?thesis
    proof (cases "dropWhile (\<lambda>x. x \<noteq> newline) r")
      case Nil
      with Cons False show ?thesis by (simp del: dropWhile_eq_Nil_conv)
    next
      case (Cons y r')
      with Cons.IH False show ?thesis by simp
    qed
  qed
qed

lemma not_line_start_after:
  assumes "c \<noteq> []" and "newline \<notin> set c"
  shows "\<not> at_line_start (rev c @ l)"
proof -
  from assms(1) have "last c \<in> set c" by (rule last_in_set)
  with assms(2) have "last c \<noteq> newline" by metis
  moreover from assms(1) have "hd (rev c @ l) = last c" by (simp add: hd_append hd_rev)
  ultimately show ?thesis using assms(1) by (simp add: at_line_start_def)
qed

lemma findall_from_skip:
  assumes ext: "ext \<noteq> []" "newline \<notin> set ext"
  shows "\<not> at_line_start l \<Longrightarrow> newline \<notin> set c \<Longrightarrow>
         findall_from (ref_pattern ext) l (c @ r) = findall_from (ref_pattern ext) (rev c @ l) r"
proof (induction c arbitrary: l)
  case Nil
  then show ?case by simp
next
  case (Cons x c)
  from Cons.prems(1) have "match_at (ref_pattern ext) l (x # c @ r) = None"
    by (simp add: match_at_ref_pattern [OF ext])
  then have "findall_from (ref_pattern ext) l ((x # c) @ r)
             = findall_from (ref_pattern ext) (x # l) (c @ r)"
    by (simp add: findall_from_Cons)
  moreover from Cons.prems(2) have "\<not> at_line_start (x # l)"
    by (auto simp: at_line_start_def)
  ultimately show ?case using Cons.IH [of "x # l"] Cons.prems(2) by simp
qed

lemma findall_from_lines:
  assumes ext: "ext \<noteq> []" "newline \<notin> set ext"
  shows "at_line_start l \<Longrightarrow>
         findall_from (ref_pattern ext) l r
         = filter (\<lambda>ln. \<not> prefix ''#'' ln \<and> references ext ln) (split_on newline r)"
proof (induction "length r" arbitrary: l r rule: less_induct)
  case less
  let ?re = "ref_pattern ext"
  let ?P = "\<lambda>ln. \<not> prefix ''#'' ln \<and> references ext ln"
  let ?ln = "takeWhile (\<lambda>x. x \<noteq> newline) r"
  let ?rest = "dropWhile (\<lambda>x. x \<noteq> newline) r"
  let ?l' = "rev ?ln @ l"
  have r: "r = ?ln @ ?rest" by simp
  have ln: "newline \<notin> set ?ln" by (auto dest: set_takeWhileD)
  have hash: "prefix ''#'' r \<longleftrightarrow> prefix ''#'' ?ln"
    by (cases r) (auto simp: newline_def)
  have A: "findall_from ?re l r = (if ?P ?ln then [?ln] else []) @ findall_from ?re ?l' ?rest
           \<and> match_at ?re ?l' ?rest = None"
  proof (cases "?P ?ln")
    case True
    then have ne: "?ln \<noteq> []" using references_Nil [OF ext(1)] by auto
    from not_line_start_after [OF ne ln] have nl': "\<not> at_line_start ?l'" .
    from True less.prems hash
    have m: "match_at ?re l r = Some (?l', ?rest, Some ?ln)"
      by (simp add: match_at_ref_pattern [OF ext])
    have "length r = length ?ln + length ?rest"
      by (metis r length_append)
    with ne have "length ?rest < length r" by simp
    from findall_from_match [OF m this] True nl' show ?thesis
      by (simp add: group1_def match_at_ref_pattern [OF ext])
  next
    case False
    with hash have m: "match_at ?re l r = None"
      by (simp add: match_at_ref_pattern [OF ext])
    show ?thesis
    proof (cases ?ln)
      case Nil
      then have "?rest = r" by (metis r append_Nil)
      with Nil m False show ?thesis by simp
    next
      case (Cons x c)
      with ln have x: "x \<noteq> newline" and c: "newline \<notin> set c" by auto
      from Cons r have r': "r = x # c @ ?rest" by (metis append_Cons)
      from x have nls: "\<not> at_line_start (x # l)" by (simp add: at_line_start_def)
      have "findall_from ?re l r = findall_from ?re (x # l) (c @ ?rest)"
        using m by (subst r', subst findall_from_Cons) (simp_all add: r' [symmetric])
      also have "\<dots> = findall_from ?re (rev c @ x # l) ?rest"
        by (rule findall_from_skip [OF ext nls c])
      finally have f: "findall_from ?re l r = findall_from ?re ?l' ?rest"
        by (simp add: Cons)
      from Cons have "?ln \<noteq> []" by simp
      from not_line_start_after [OF this ln] have "\<not> at_line_start ?l'" .
      with f False show ?thesis by (simp add: match_at_ref_pattern [OF ext])
    qed
  qed
  then have A1: "findall_from ?re l r
                 = (if ?P ?ln then [?ln] else []) @ findall_from ?re ?l' ?rest"
    and A2: "match_at ?re ?l' ?rest = None" by simp_all
  show ?case
  proof (cases ?rest)
    case Nil
    with A2 have "findall_from ?re ?l' ?rest = []"
      by (simp add: findall_from_Nil del: dropWhile_eq_Nil_conv)
    moreover from Nil have "split_on newline r = [?ln]"
      by (subst split_on_line) (simp del: dropWhile_eq_Nil_conv)
    ultimately show ?thesis using A1 by simp
  next
    case (Cons y r')
    from hd_dropWhile [of "\<lambda>x. x \<noteq> newline" r] Cons have y: "y = newline" by auto
    have "length r = length ?ln + length ?rest"
      by (metis r length_append)
    with Cons have len: "length r' < length r" by simp
    have "at_line_start (y # ?l')" using y by (simp add: at_line_start_def)
    from less.hyps [OF len this]
    have "findall_from ?re (y # ?l') r' = filter ?P (split_on newline r')" .
    moreover from A2 Cons have "findall_from ?re ?l' ?rest = findall_from ?re (y # ?l') r'"
      by (simp add: findall_from_Cons)
    moreover from Cons have "split_on newline r = ?ln # split_on newline r'"
      by (subst split_on_line) simp
    ultimately show ?thesis using A1 by simp
  qed
qed

lemma findall_ref_pattern:
  assumes "ext \<noteq> []" "newline \<notin> set ext"
  shows "findall (ref_pattern ext) content
         = filter (\<lambda>ln. \<not> prefix ''#'' ln \<and> references ext ln) (split_on newline content)"
  unfolding findall_def
  by (rule findall_from_lines [OF assms]) (simp add: at_line_start_def)


lemma find_references_lines:
  assumes "ext \<noteq> []" "newline \<notin> set ext"
  shows "find_references uj content base_url ext
         = map (\<lambda>ln. uj base_url (strip ln))
             (filter (\<lambda>ln. \<not> prefix ''#'' ln \<and> references ext ln) (split_on newline content))"
  by (simp add: find_references_def findall_ref_pattern [OF assms])

lemma extension_literal:
  "''.m3u8'' \<noteq> []" "newline \<notin> set ''.m3u8''" "''.ts'' \<noteq> []" "newline \<notin> set ''.ts''"
  by (simp_all add: newline_def)




text \<open>
  C2, as the code has it. A line of the body whose first character is the marker \<^verbatim>\<open>#\<close> is
  never among the matches of the reference pattern, whatever the rest of the line is, for
  the manifest extension as for the segment extension; and every URL that
  \<open>find_references\<close> returns comes from a line of the body that does not begin with the
  marker.
\<close>

theorem marker_lines_yield_nothing:
  assumes "file_extension = ''.m3u8'' \<or> file_extension = ''.ts''"
  shows "(\<forall>ln \<in> set (split_on newline content).
            prefix ''#'' ln \<longrightarrow> ln \<notin> set (findall (ref_pattern file_extension) content))
       \<and> (\<forall>u \<in> set (find_references uj content base_url file_extension).
            \<exists>ln \<in> set (split_on newline content).
              \<not> prefix ''#'' ln \<and> u = uj base_url (strip ln))"
proof -
  from assms have e: "file_extension \<noteq> []" "newline \<notin> set file_extension"
    using extension_literal by auto
  show ?thesis
    unfolding find_references_lines [OF e] findall_ref_pattern [OF e] by auto
qed

theorem marker_lines_yield_nothing_witness:
  "''#old.m3u8'' \<in> set (split_on newline tagged_body)
   \<and> prefix ''#'' ''#old.m3u8''
   \<and> references ''.m3u8'' ''#old.m3u8''
   \<and> ''#old.m3u8'' \<notin> set (findall (ref_pattern ''.m3u8'') tagged_body)"
proof -
  have l: "''#old.m3u8'' \<in> set (split_on newline tagged_body)" by code_simp
  have p: "prefix ''#'' ''#old.m3u8''" by code_simp
  have r: "references ''.m3u8'' ''#old.m3u8''" by code_simp
  from marker_lines_yield_nothing [of "''.m3u8''" tagged_body undefined undefined] l p
  have "''#old.m3u8'' \<notin> set (findall (ref_pattern ''.m3u8'') tagged_body)"
    by blast
  with l p r show ?thesis by simp
qed

text \<open>
  C2, as the claim states it, fails on \<open>indented_body\<close>: the first non-whitespace character
  of its first line is the marker, the line matches the reference pattern, and
  \<open>find_references\<close> returns a URL made from it.
\<close>

theorem marker_lines_yield_nothing_counterexample:
  "comment_line ''  # was: old.m3u8''
   \<and> ''  # was: old.m3u8'' \<in> set (split_on newline indented_body)
   \<and> ''  # was: old.m3u8'' \<in> set (findall (ref_pattern ''.m3u8'') indented_body)
   \<and> find_references simple_urljoin indented_body ''https://x.test/master.m3u8'' ''.m3u8''
      = [''https://x.test/master.m3u8# was: old.m3u8'', ''https://x.test/variant1.m3u8'']"
  by code_simp

end
